theory Spec2Isabelle
  imports Main "HOL-Library.Log_Nat"
begin

section \<open>JavaScript numbers\<close>

text \<open>
  The analyzer (\<^verbatim>\<open>analyzer/script.js\<close>) computes with JavaScript numbers, that is
  IEEE-754 doubles. Its rates and window sizes are integers; integer \<open>+\<close>, \<open>-\<close>,
  \<open>min\<close> and \<open>max\<close> are exact on doubles of magnitude below \<open>2^53\<close>, and such
  quantities are modelled as \<open>int\<close>. The delivered and dropped totals and the chart
  samples are integers as well, unless a tick has made them NaN: they are modelled as
  \<open>counter\<close>, an integer with exact \<open>+\<close> and \<open>-\<close> (as on doubles below
  \<open>2^53\<close>) or a special value. The
  quotients and products that leave the integers (\<^verbatim>\<open>overload / sendingRate\<close>,
  \<^verbatim>\<open>1 - dropRate\<close>, \<^verbatim>\<open>tcpWindowSize * 0.7\<close>, \<^verbatim>\<open>packetRate / networkCapacity * 100\<close>)
  are modelled as \<open>jsnum\<close>: a rational rounded to 53 significant bits (round to
  nearest, ties to even) after every operation, or a special value. The exponent is not
  bounded (no overflow to infinity, no subnormal numbers), and zero has no sign: a
  slider value that parses to the negative zero is not covered.
\<close>

datatype jsnum = Finite rat | PosInf | NegInf | NaN

definition round_even :: "rat \<Rightarrow> int" where
  "round_even r =
     (let f = \<lfloor>r\<rfloor>; d = r - of_int f
      in if d < 1 / 2 then f
         else if 1 / 2 < d then f + 1
         else if even f then f else f + 1)"

text \<open>The binary exponent of a positive rational: \<open>2 powi expo x \<le> x < 2 powi (expo x + 1)\<close>.\<close>

definition expo :: "rat \<Rightarrow> int" where
  "expo x = (if 1 \<le> x then bitlen \<lfloor>x\<rfloor> - 1 else - bitlen (\<lceil>1 / x\<rceil> - 1))"

text \<open>The spacing of the doubles around a positive rational.\<close>

definition ulp :: "rat \<Rightarrow> rat" where
  "ulp x = 2 powi (expo x - 52)"

definition fl_pos :: "rat \<Rightarrow> rat" where
  "fl_pos x = of_int (round_even (x / ulp x)) * ulp x"

text \<open>The double nearest to a rational.\<close>

definition fl :: "rat \<Rightarrow> rat" where
  "fl x = (if x = 0 then 0 else if 0 < x then fl_pos x else - fl_pos (- x))"

definition js_int :: "int \<Rightarrow> jsnum" where
  "js_int i = Finite (of_int i)"

fun js_div :: "jsnum \<Rightarrow> jsnum \<Rightarrow> jsnum" where
  "js_div (Finite x) (Finite y) =
     (if y \<noteq> 0 then Finite (fl (x / y))
      else if 0 < x then PosInf else if x < 0 then NegInf else NaN)"
| "js_div (Finite x) PosInf = Finite 0"
| "js_div (Finite x) NegInf = Finite 0"
| "js_div PosInf (Finite y) = (if 0 \<le> y then PosInf else NegInf)"
| "js_div NegInf (Finite y) = (if 0 \<le> y then NegInf else PosInf)"
| "js_div _ _ = NaN"

fun js_sub :: "jsnum \<Rightarrow> jsnum \<Rightarrow> jsnum" where
  "js_sub (Finite x) (Finite y) = Finite (fl (x - y))"
| "js_sub (Finite x) PosInf = NegInf"
| "js_sub (Finite x) NegInf = PosInf"
| "js_sub PosInf (Finite y) = PosInf"
| "js_sub PosInf NegInf = PosInf"
| "js_sub NegInf (Finite y) = NegInf"
| "js_sub NegInf PosInf = NegInf"
| "js_sub _ _ = NaN"

fun js_mul :: "jsnum \<Rightarrow> jsnum \<Rightarrow> jsnum" where
  "js_mul (Finite x) (Finite y) = Finite (fl (x * y))"
| "js_mul (Finite x) PosInf = (if 0 < x then PosInf else if x < 0 then NegInf else NaN)"
| "js_mul (Finite x) NegInf = (if 0 < x then NegInf else if x < 0 then PosInf else NaN)"
| "js_mul PosInf (Finite y) = (if 0 < y then PosInf else if y < 0 then NegInf else NaN)"
| "js_mul NegInf (Finite y) = (if 0 < y then NegInf else if y < 0 then PosInf else NaN)"
| "js_mul PosInf PosInf = PosInf"
| "js_mul PosInf NegInf = NegInf"
| "js_mul NegInf PosInf = NegInf"
| "js_mul NegInf NegInf = PosInf"
| "js_mul _ _ = NaN"

text \<open>An integer-valued number, an infinity or NaN.\<close>

datatype counter = Count int | PlusInfinity | MinusInfinity | NotANumber

text \<open>\<^verbatim>\<open>Math.floor\<close>.\<close>

fun js_floor :: "jsnum \<Rightarrow> counter" where
  "js_floor (Finite x) = Count \<lfloor>x\<rfloor>"
| "js_floor PosInf = PlusInfinity"
| "js_floor NegInf = MinusInfinity"
| "js_floor NaN = NotANumber"

text \<open>\<^verbatim>\<open>+\<close> and \<^verbatim>\<open>-\<close> on counters: exact on integers, NaN and the infinities as in IEEE.\<close>

fun count_add :: "counter \<Rightarrow> counter \<Rightarrow> counter" where
  "count_add (Count a) (Count b) = Count (a + b)"
| "count_add NotANumber v = NotANumber"
| "count_add v NotANumber = NotANumber"
| "count_add PlusInfinity MinusInfinity = NotANumber"
| "count_add MinusInfinity PlusInfinity = NotANumber"
| "count_add PlusInfinity v = PlusInfinity"
| "count_add v PlusInfinity = PlusInfinity"
| "count_add MinusInfinity v = MinusInfinity"
| "count_add v MinusInfinity = MinusInfinity"

fun count_sub :: "counter \<Rightarrow> counter \<Rightarrow> counter" where
  "count_sub (Count a) (Count b) = Count (a - b)"
| "count_sub NotANumber v = NotANumber"
| "count_sub v NotANumber = NotANumber"
| "count_sub PlusInfinity PlusInfinity = NotANumber"
| "count_sub MinusInfinity MinusInfinity = NotANumber"
| "count_sub PlusInfinity v = PlusInfinity"
| "count_sub v MinusInfinity = PlusInfinity"
| "count_sub MinusInfinity v = MinusInfinity"
| "count_sub v PlusInfinity = MinusInfinity"

text \<open>The comparison \<^verbatim>\<open><\<close>: false whenever an operand is NaN.\<close>

fun js_lt :: "jsnum \<Rightarrow> jsnum \<Rightarrow> bool" where
  "js_lt (Finite x) (Finite y) = (x < y)"
| "js_lt (Finite x) PosInf = True"
| "js_lt NegInf (Finite y) = True"
| "js_lt NegInf PosInf = True"
| "js_lt _ _ = False"

section \<open>The simulation state\<close>

datatype protocol = TCP | UDP

datatype status = Normal | Warning | Congested

record chart_data =
  time :: "string list"
  throughput :: "counter list"
  loss :: "counter list"

text \<open>
  The global variables of the script that the network simulation reads or writes.
  \<open>simulationInterval\<close> tells whether the one-second interval is scheduled.
\<close>

record sim_state =
  packetRate :: int
  networkCapacity :: int
  sentPackets :: int
  deliveredPackets :: counter
  droppedPackets :: counter
  currentProtocol :: protocol
  isSimulationRunning :: bool
  simulationInterval :: bool
  tcpWindowSize :: int
  chartData :: chart_data

definition empty_chart :: chart_data where
  "empty_chart = \<lparr>time = [], throughput = [], loss = []\<rparr>"

definition initial_state :: sim_state where
  "initial_state =
     \<lparr>packetRate = 10, networkCapacity = 15, sentPackets = 0, deliveredPackets = Count 0,
      droppedPackets = Count 0, currentProtocol = TCP, isSimulationRunning = False,
      simulationInterval = False, tcpWindowSize = 1, chartData = empty_chart\<rparr>"

section \<open>Configuration handlers\<close>

text \<open>
  The \<^verbatim>\<open>input\<close> listeners of the two sliders store \<^verbatim>\<open>parseInt(e.target.value)\<close>;
  the argument is that integer.
\<close>

definition packetRate_input :: "int \<Rightarrow> sim_state \<Rightarrow> sim_state" where
  "packetRate_input v s = s\<lparr>packetRate := v\<rparr>"

definition networkCapacity_input :: "int \<Rightarrow> sim_state \<Rightarrow> sim_state" where
  "networkCapacity_input v s = s\<lparr>networkCapacity := v\<rparr>"

section \<open>Lifecycle\<close>

definition resetNetworkStats :: "sim_state \<Rightarrow> sim_state" where
  "resetNetworkStats s =
     s\<lparr>sentPackets := 0, deliveredPackets := Count 0, droppedPackets := Count 0,
       tcpWindowSize := 1, chartData := empty_chart\<rparr>"

definition startSimulation :: "sim_state \<Rightarrow> sim_state" where
  "startSimulation s =
     (if isSimulationRunning s then s
      else (resetNetworkStats (s\<lparr>isSimulationRunning := True\<rparr>))\<lparr>simulationInterval := True\<rparr>)"

definition pauseSimulation :: "sim_state \<Rightarrow> sim_state" where
  "pauseSimulation s = s\<lparr>isSimulationRunning := False, simulationInterval := False\<rparr>"

definition resetCharts :: "sim_state \<Rightarrow> sim_state" where
  "resetCharts s = s\<lparr>chartData := empty_chart\<rparr>"

definition resetSimulation :: "sim_state \<Rightarrow> sim_state" where
  "resetSimulation s = resetCharts (resetNetworkStats (pauseSimulation s))"

definition setProtocol :: "protocol \<Rightarrow> sim_state \<Rightarrow> sim_state" where
  "setProtocol p s =
     (let s1 = s\<lparr>currentProtocol := p\<rparr>
      in if isSimulationRunning s1 then resetSimulation s1 else s1)"

section \<open>One tick\<close>

text \<open>\<^verbatim>\<open>xs[xs.length - 1] || 0\<close>: zero for the empty array, for a last entry 0 and for NaN.\<close>

definition last_or_zero :: "counter list \<Rightarrow> counter" where
  "last_or_zero xs =
     (if xs = [] then Count 0
      else case last xs of NotANumber \<Rightarrow> Count 0 | v \<Rightarrow> v)"

text \<open>The three \<^verbatim>\<open>push\<close> calls and the trimming to eight entries (\<^verbatim>\<open>shift\<close>).\<close>

definition chart_push :: "string \<Rightarrow> counter \<Rightarrow> counter \<Rightarrow> chart_data \<Rightarrow> chart_data" where
  "chart_push t th l c =
     (let c1 = \<lparr>time = time c @ [t], throughput = throughput c @ [th], loss = loss c @ [l]\<rparr>
      in if 8 < length (time c1)
         then \<lparr>time = tl (time c1), throughput = tl (throughput c1), loss = tl (loss c1)\<rparr>
         else c1)"

text \<open>The chart update at the end of \<^verbatim>\<open>simulateNetworkTraffic\<close>, on the updated counters.\<close>

definition update_chart :: "string \<Rightarrow> sim_state \<Rightarrow> sim_state" where
  "update_chart currentTime s =
     s\<lparr>chartData :=
         chart_push currentTime
           (count_sub (deliveredPackets s) (last_or_zero (throughput (chartData s))))
           (droppedPackets s) (chartData s)\<rparr>"

definition sendingRate :: "sim_state \<Rightarrow> int" where
  "sendingRate s =
     (if currentProtocol s = TCP then min (packetRate s) (tcpWindowSize s) else packetRate s)"

text \<open>
  \<^verbatim>\<open>Math.floor(sendingRate * (1 - overload / sendingRate))\<close>. With a sending rate of 0
  the quotient is an infinity or NaN and the result is NaN.
\<close>

definition delivered_of :: "int \<Rightarrow> int \<Rightarrow> counter" where
  "delivered_of rate overload =
     (let dropRate = js_div (js_int overload) (js_int rate)
      in js_floor (js_mul (js_int rate) (js_sub (js_int 1) dropRate)))"

text \<open>
  \<^verbatim>\<open>Math.max(1, Math.floor(tcpWindowSize * 0.7))\<close>: the literal is the double nearest to
  7/10, the product of the two finite numbers is rounded, and the result is an integer.
\<close>

definition backoff :: "int \<Rightarrow> int" where
  "backoff w = max 1 \<lfloor>fl (of_int w * fl (7 / 10))\<rfloor>"

text \<open>
  \<^verbatim>\<open>simulateNetworkTraffic\<close>, with the time string it reads from the clock as an
  argument.
\<close>

definition simulateNetworkTraffic :: "string \<Rightarrow> sim_state \<Rightarrow> sim_state" where
  "simulateNetworkTraffic currentTime s =
     (let rate = sendingRate s;
          s1 = s\<lparr>sentPackets := sentPackets s + rate\<rparr>;
          overload = max 0 (rate - networkCapacity s)
      in if 0 < overload then
           (let delivered = delivered_of rate overload;
                dropped = count_sub (Count rate) delivered;
                s2 = s1\<lparr>deliveredPackets := count_add (deliveredPackets s1) delivered,
                        droppedPackets := count_add (droppedPackets s1) dropped\<rparr>
            in if currentProtocol s = TCP then
                 update_chart currentTime (s2\<lparr>tcpWindowSize := backoff (tcpWindowSize s)\<rparr>)
               else update_chart currentTime s2)
         else
           (let s2 = s1\<lparr>deliveredPackets := count_add (deliveredPackets s1) (Count rate)\<rparr>
            in if currentProtocol s = TCP then
                 update_chart currentTime
                   (s2\<lparr>tcpWindowSize := min (packetRate s) (tcpWindowSize s + 1)\<rparr>)
               else update_chart currentTime s2))"

text \<open>Consecutive ticks, one per time string.\<close>

fun ticks :: "string list \<Rightarrow> sim_state \<Rightarrow> sim_state" where
  "ticks [] s = s"
| "ticks (t # ts) s = ticks ts (simulateNetworkTraffic t s)"

text \<open>
  The status text that \<^verbatim>\<open>updateNetworkVisualization\<close> writes, from
  \<^verbatim>\<open>(packetRate / networkCapacity) * 100\<close>.
\<close>

definition utilization :: "int \<Rightarrow> int \<Rightarrow> jsnum" where
  "utilization rate capacity = js_mul (js_div (js_int rate) (js_int capacity)) (js_int 100)"

definition networkStatus :: "int \<Rightarrow> int \<Rightarrow> status" where
  "networkStatus rate capacity =
     (let u = utilization rate capacity
      in if js_lt u (js_int 60) then Normal
         else if js_lt u (js_int 85) then Warning
         else Congested)"

section \<open>Runs of the page\<close>

text \<open>
  The states the script can reach from the values its variables are initialised with:
  by a slider input, a protocol tab, the three buttons, or a tick of the interval
  while it is scheduled.
\<close>

inductive reachable :: "sim_state \<Rightarrow> bool" where
  r_init: "reachable initial_state"
| r_rate: "reachable s \<Longrightarrow> reachable (packetRate_input v s)"
| r_capacity: "reachable s \<Longrightarrow> reachable (networkCapacity_input v s)"
| r_protocol: "reachable s \<Longrightarrow> reachable (setProtocol p s)"
| r_start: "reachable s \<Longrightarrow> reachable (startSimulation s)"
| r_pause: "reachable s \<Longrightarrow> reachable (pauseSimulation s)"
| r_reset: "reachable s \<Longrightarrow> reachable (resetSimulation s)"
| r_tick: "reachable s \<Longrightarrow> simulationInterval s \<Longrightarrow>
           reachable (simulateNetworkTraffic t s)"

section \<open>Definitions used by the statements below\<close>

text \<open>
  A run of ticks on which the sending rate never exceeds the capacity (the branch
  \<^verbatim>\<open>overload > 0\<close> is never taken).
\<close>

fun no_overload_run :: "string list \<Rightarrow> sim_state \<Rightarrow> bool" where
  "no_overload_run [] s = True"
| "no_overload_run (t # ts) s =
     (sendingRate s \<le> networkCapacity s \<and> no_overload_run ts (simulateNetworkTraffic t s))"

text \<open>Pushing a sequence of samples (time, throughput, loss), oldest first.\<close>

fun pushes :: "(string \<times> counter \<times> counter) list \<Rightarrow> chart_data \<Rightarrow> chart_data" where
  "pushes [] c = c"
| "pushes ((t, th, l) # xs) c = pushes xs (chart_push t th l c)"

text \<open>The chart that holds exactly the given samples, in their order.\<close>

definition chart_of :: "(string \<times> counter \<times> counter) list \<Rightarrow> chart_data" where
  "chart_of xs =
     \<lparr>time = map fst xs, throughput = map (\<lambda>x. fst (snd x)) xs, loss = map (\<lambda>x. snd (snd x)) xs\<rparr>"


text \<open>
  The formulas of the specification read in exact rational arithmetic, without the
  rounding of doubles, to be compared with \<open>delivered_of\<close> and \<open>backoff\<close>:
  \<open>delivered = floor(sendingRate * (1 - overload / sendingRate))\<close> and
  \<open>newWindowSize = max(1, floor(windowSize * 0.7))\<close>.
\<close>

definition delivered_exact :: "int \<Rightarrow> int \<Rightarrow> int" where
  "delivered_exact rate overload =
     (let dropRate = (of_int overload :: rat) / of_int rate
      in \<lfloor>of_int rate * (1 - dropRate)\<rfloor>)"

definition backoff_exact :: "int \<Rightarrow> int" where
  "backoff_exact w = max 1 \<lfloor>(of_int w :: rat) * (7 / 10)\<rfloor>"

text \<open>The three arrays of the chart run in step and hold at most eight entries.\<close>

definition chart_ok :: "chart_data \<Rightarrow> bool" where
  "chart_ok c \<longleftrightarrow>
     length (time c) \<le> 8 \<and> length (throughput c) = length (time c)
     \<and> length (loss c) = length (time c)"

section \<open>Rounding to the nearest double\<close>

lemma round_even_upper: "of_int (round_even r) \<le> r + 1 / 2"
  unfolding round_even_def Let_def by (simp; linarith)

lemma round_even_lower: "r - 1 / 2 \<le> of_int (round_even r)"
  unfolding round_even_def Let_def by (simp; linarith)

lemma round_even_of_int [simp]: "round_even (of_int n) = n"
  by (simp add: round_even_def)

lemma round_even_range: "\<lfloor>r\<rfloor> \<le> round_even r \<and> round_even r \<le> \<lfloor>r\<rfloor> + 1"
  by (simp add: round_even_def Let_def)

lemma round_even_mono:
  assumes "r \<le> s" shows "round_even r \<le> round_even s"
proof (cases "\<lfloor>r\<rfloor> < \<lfloor>s\<rfloor>")
  case True
  then show ?thesis using round_even_range [of r] round_even_range [of s] by linarith
next
  case False
  with assms have eq: "\<lfloor>r\<rfloor> = \<lfloor>s\<rfloor>" using floor_mono [of r s] by linarith
  then show ?thesis using assms
    by (auto simp: round_even_def Let_def)
qed

lemma bitlen_pos_bounds:
  assumes "0 < n"
  shows "2 powi (bitlen n - 1) \<le> (of_int n :: rat)" and "(of_int n :: rat) < 2 powi (bitlen n)"
proof -
  from assms have b1: "1 \<le> bitlen n" by (simp add: bitlen_alt_def)
  from bitlen_bounds [OF assms]
  have lo: "2 ^ nat (bitlen n - 1) \<le> n" and hi: "n < 2 ^ nat (bitlen n)" by simp_all
  have "(of_int (2 ^ nat (bitlen n - 1)) :: rat) \<le> of_int n"
    using lo by (simp only: of_int_le_iff)
  then show "2 powi (bitlen n - 1) \<le> (of_int n :: rat)"
    using b1 by (simp add: power_int_def)
  have "(of_int n :: rat) < of_int (2 ^ nat (bitlen n))"
    using hi by (simp only: of_int_less_iff)
  then show "(of_int n :: rat) < 2 powi (bitlen n)"
    using b1 by (simp add: power_int_def)
qed

lemma powi2_pos [simp]: "0 < (2::rat) powi k"
  by simp

lemma expo_lower:
  assumes "0 < x"
  shows "2 powi expo x \<le> x"
proof (cases "1 \<le> x")
  case True
  then have fp: "0 < \<lfloor>x\<rfloor>" by simp
  have "2 powi (bitlen \<lfloor>x\<rfloor> - 1) \<le> (of_int \<lfloor>x\<rfloor> :: rat)"
    using bitlen_pos_bounds(1) [OF fp] .
  also have "\<dots> \<le> x" by simp
  finally show ?thesis using True by (simp add: expo_def)
next
  case False
  define y where "y = 1 / x"
  define n where "n = \<lceil>y\<rceil> - 1"
  from False assms have y1: "1 < y" by (simp add: y_def)
  then have "1 < \<lceil>y\<rceil>" by (simp add: less_ceiling_iff)
  then have np: "0 < n" by (simp add: n_def)
  have "y \<le> of_int \<lceil>y\<rceil>" by simp
  also have "\<dots> = of_int n + 1" by (simp add: n_def)
  also have "\<dots> \<le> 2 powi (bitlen n)"
  proof -
    have "n < 2 ^ nat (bitlen n)" using bitlen_bounds [OF np] by simp
    then have "n + 1 \<le> 2 ^ nat (bitlen n)" by simp
    then have "(of_int (n + 1) :: rat) \<le> of_int (2 ^ nat (bitlen n))"
      by (simp only: of_int_le_iff)
    then show ?thesis using bitlen_nonneg [of n] by (simp add: power_int_def)
  qed
  finally have "y \<le> 2 powi (bitlen n)" .
  then have "1 / 2 powi (bitlen n) \<le> 1 / y"
    using y1 by (simp add: frac_le)
  then have "2 powi (- bitlen n) \<le> x"
    using assms by (simp add: y_def power_int_minus field_simps)
  then show ?thesis using False by (simp add: expo_def y_def n_def)
qed

lemma expo_upper:
  assumes "0 < x"
  shows "x < 2 powi (expo x + 1)"
proof (cases "1 \<le> x")
  case True
  then have fp: "0 < \<lfloor>x\<rfloor>" by simp
  have "x < of_int (\<lfloor>x\<rfloor> + 1)" by linarith
  also have "\<dots> \<le> 2 powi (bitlen \<lfloor>x\<rfloor>)"
  proof -
    have "\<lfloor>x\<rfloor> < 2 ^ nat (bitlen \<lfloor>x\<rfloor>)" using bitlen_bounds [OF fp] by simp
    then have "\<lfloor>x\<rfloor> + 1 \<le> 2 ^ nat (bitlen \<lfloor>x\<rfloor>)" by simp
    then have "(of_int (\<lfloor>x\<rfloor> + 1) :: rat) \<le> of_int (2 ^ nat (bitlen \<lfloor>x\<rfloor>))"
      by (simp only: of_int_le_iff)
    then show ?thesis using bitlen_nonneg [of "\<lfloor>x\<rfloor>"] by (simp add: power_int_def)
  qed
  finally show ?thesis using True by (simp add: expo_def)
next
  case False
  define y where "y = 1 / x"
  define n where "n = \<lceil>y\<rceil> - 1"
  from False assms have y1: "1 < y" by (simp add: y_def)
  then have "1 < \<lceil>y\<rceil>" by (simp add: less_ceiling_iff)
  then have np: "0 < n" by (simp add: n_def)
  have "2 powi (bitlen n - 1) \<le> (of_int n :: rat)"
    using bitlen_pos_bounds(1) [OF np] .
  also have "\<dots> < y" unfolding n_def by linarith
  finally have "2 powi (bitlen n - 1) < y" .
  then have "1 / y < 1 / 2 powi (bitlen n - 1)"
    by (simp add: frac_less2)
  moreover have "x = 1 / y" by (simp add: y_def)
  moreover have "1 / (2::rat) powi (bitlen n - 1) = 2 powi (- (bitlen n - 1))"
    by (simp only: power_int_minus divide_inverse mult_1)
  ultimately have "x < 2 powi (- (bitlen n - 1))" by simp
  moreover have "expo x + 1 = - (bitlen n - 1)"
    using False by (simp add: expo_def y_def n_def)
  ultimately show ?thesis by simp
qed


lemma expo_mono:
  assumes "0 < x" "x \<le> y"
  shows "expo x \<le> expo y"
proof (rule ccontr)
  assume "\<not> expo x \<le> expo y"
  then have "expo y + 1 \<le> expo x" by simp
  then have "(2::rat) powi (expo y + 1) \<le> 2 powi expo x"
    by (simp add: power_int_increasing)
  also have "\<dots> \<le> x" using expo_lower [OF assms(1)] .
  also have "\<dots> \<le> y" by fact
  also have "\<dots> < 2 powi (expo y + 1)" using expo_upper [of y] assms by simp
  finally show False by simp
qed

lemma ulp_pos [simp]: "0 < ulp x"
  by (simp add: ulp_def)

lemma fl_pos_ulp: "fl_pos x = of_int (round_even (x / ulp x)) * ulp x"
  by (simp add: fl_pos_def)

lemma ulp_low: "2 powi expo x = 2 ^ 52 * ulp x"
proof -
  have e: "expo x = 52 + (expo x - 52)" by linarith
  have "(2::rat) powi expo x = 2 powi (52 + (expo x - 52))" by (subst e) (rule refl)
  also have "\<dots> = 2 powi 52 * 2 powi (expo x - 52)"
    by (rule power_int_add) simp
  finally show ?thesis by (simp add: ulp_def)
qed

lemma ulp_high: "2 powi (expo x + 1) = 2 ^ 53 * ulp x"
proof -
  have e: "expo x + 1 = 53 + (expo x - 52)" by linarith
  have "(2::rat) powi (expo x + 1) = 2 powi (53 + (expo x - 52))" by (subst e) (rule refl)
  also have "\<dots> = 2 powi 53 * 2 powi (expo x - 52)"
    by (rule power_int_add) simp
  finally show ?thesis by (simp add: ulp_def)
qed

lemma scaled_range:
  assumes "0 < x"
  shows "2 ^ 52 \<le> x / ulp x" and "x / ulp x < 2 ^ 53"
proof -
  have "2 ^ 52 * ulp x \<le> x" using expo_lower [OF assms] by (simp add: ulp_low)
  then show "2 ^ 52 \<le> x / ulp x" by (simp add: pos_le_divide_eq)
  have "x < 2 ^ 53 * ulp x" using expo_upper [OF assms] by (simp add: ulp_high)
  then show "x / ulp x < 2 ^ 53" by (simp add: pos_divide_less_eq)
qed

lemma fl_pos_ge_pow:
  assumes "0 < x"
  shows "2 powi expo x \<le> fl_pos x"
proof -
  have "round_even (of_int (2 ^ 52)) \<le> round_even (x / ulp x)"
    using scaled_range(1) [OF assms] by (intro round_even_mono) simp
  then have "2 ^ 52 \<le> round_even (x / ulp x)" by (simp only: round_even_of_int)
  then have "(of_int (2 ^ 52) :: rat) \<le> of_int (round_even (x / ulp x))"
    by (simp only: of_int_le_iff)
  then have "2 ^ 52 * ulp x \<le> of_int (round_even (x / ulp x)) * ulp x"
    by (simp add: mult_right_mono)
  then show ?thesis by (simp add: ulp_low fl_pos_ulp)
qed

lemma fl_pos_le_pow:
  assumes "0 < x"
  shows "fl_pos x \<le> 2 powi (expo x + 1)"
proof -
  have "round_even (x / ulp x) \<le> round_even (of_int (2 ^ 53))"
    using scaled_range(2) [OF assms] by (intro round_even_mono) simp
  then have "round_even (x / ulp x) \<le> 2 ^ 53" by (simp only: round_even_of_int)
  then have "(of_int (round_even (x / ulp x)) :: rat) \<le> of_int (2 ^ 53)"
    by (simp only: of_int_le_iff)
  then have "of_int (round_even (x / ulp x)) * ulp x \<le> 2 ^ 53 * ulp x"
    by (simp add: mult_right_mono)
  then show ?thesis by (simp add: ulp_high fl_pos_ulp)
qed

lemma fl_pos_positive: "0 < x \<Longrightarrow> 0 < fl_pos x"
  using fl_pos_ge_pow [of x] powi2_pos [of "expo x"] by linarith

lemma fl_pos_mono:
  assumes "0 < x" "x \<le> y"
  shows "fl_pos x \<le> fl_pos y"
proof (cases "expo x = expo y")
  case True
  then have u: "ulp x = ulp y" by (simp add: ulp_def)
  have "x / ulp y \<le> y / ulp y"
    using assms(2) by (rule divide_right_mono) (simp add: less_imp_le)
  then have "round_even (x / ulp y) \<le> round_even (y / ulp y)" by (rule round_even_mono)
  then have "(of_int (round_even (x / ulp y)) :: rat) \<le> of_int (round_even (y / ulp y))"
    by (simp only: of_int_le_iff)
  then show ?thesis by (simp add: fl_pos_ulp u mult_right_mono)
next
  case False
  with expo_mono [OF assms] have "expo x + 1 \<le> expo y" by simp
  then have "(2::rat) powi (expo x + 1) \<le> 2 powi expo y"
    by (simp add: power_int_increasing)
  moreover have "fl_pos x \<le> 2 powi (expo x + 1)" using fl_pos_le_pow assms by simp
  moreover have "2 powi expo y \<le> fl_pos y" using fl_pos_ge_pow [of y] assms by simp
  ultimately show ?thesis by linarith
qed

lemma fl_mono:
  assumes "x \<le> y"
  shows "fl x \<le> fl y"
proof -
  consider "0 < x" | "x = 0" | "x < 0" "0 \<le> y" | "x < 0" "y < 0" by linarith
  then show ?thesis
  proof cases
    case 1
    with assms show ?thesis by (simp add: fl_def fl_pos_mono)
  next
    case 2
    with assms fl_pos_positive [of y] show ?thesis by (auto simp: fl_def)
  next
    case 3
    with fl_pos_positive [of "- x"] fl_pos_positive [of y] show ?thesis
      by (auto simp: fl_def)
  next
    case 4
    with assms fl_pos_mono [of "- y" "- x"] show ?thesis by (simp add: fl_def)
  qed
qed

lemma fl_pos_error:
  assumes "0 < x"
  shows "\<bar>fl_pos x - x\<bar> \<le> x / 2 ^ 53"
proof -
  define r where "r = x / ulp x"
  have nz: "ulp x \<noteq> 0" using ulp_pos [of x] by linarith
  have "\<bar>of_int (round_even r) - r\<bar> \<le> 1 / 2"
    using round_even_upper [of r] round_even_lower [of r] by linarith
  then have "\<bar>of_int (round_even r) - r\<bar> * ulp x \<le> 1 / 2 * ulp x"
    by (rule mult_right_mono) (rule less_imp_le [OF ulp_pos])
  moreover have "\<bar>of_int (round_even r) - r\<bar> * ulp x = \<bar>fl_pos x - x\<bar>"
  proof -
    have "fl_pos x - x = (of_int (round_even r) - r) * ulp x"
      using nz by (simp add: fl_pos_ulp r_def algebra_simps)
    moreover have "\<bar>ulp x\<bar> = ulp x" by (rule abs_of_pos [OF ulp_pos])
    ultimately show ?thesis by (simp only: abs_mult)
  qed
  moreover have "1 / 2 * ulp x \<le> x / 2 ^ 53"
  proof -
    have "2 ^ 52 * ulp x \<le> x" using expo_lower [OF assms] by (simp add: ulp_low)
    then show ?thesis by simp
  qed
  ultimately show ?thesis by linarith
qed

lemma fl_error: "\<bar>fl x - x\<bar> \<le> \<bar>x\<bar> / 2 ^ 53"
proof -
  consider "0 < x" | "x = 0" | "x < 0" by linarith
  then show ?thesis
  proof cases
    case 1
    then show ?thesis using fl_pos_error [of x] by (simp add: fl_def)
  next
    case 2
    then show ?thesis by (simp add: fl_def)
  next
    case 3
    then have "\<bar>fl_pos (- x) - (- x)\<bar> \<le> (- x) / 2 ^ 53" using fl_pos_error [of "- x"] by simp
    moreover have "fl x - x = - (fl_pos (- x) - (- x))" using 3 by (simp add: fl_def)
    ultimately show ?thesis using 3 by (simp only: abs_minus_cancel abs_of_neg)
  qed
qed

section \<open>A tick, branch by branch\<close>

lemma update_chart_counters [simp]:
  "sentPackets (update_chart t s) = sentPackets s"
  "deliveredPackets (update_chart t s) = deliveredPackets s"
  "droppedPackets (update_chart t s) = droppedPackets s"
  "tcpWindowSize (update_chart t s) = tcpWindowSize s"
  "packetRate (update_chart t s) = packetRate s"
  "networkCapacity (update_chart t s) = networkCapacity s"
  "currentProtocol (update_chart t s) = currentProtocol s"
  "isSimulationRunning (update_chart t s) = isSimulationRunning s"
  "simulationInterval (update_chart t s) = simulationInterval s"
  by (simp_all add: update_chart_def)

lemma delivered_of_finite:
  "rate \<noteq> 0 \<Longrightarrow>
   delivered_of rate overload =
     Count \<lfloor>fl (of_int rate * fl (1 - fl (of_int overload / of_int rate)))\<rfloor>"
  by (simp add: delivered_of_def js_int_def Let_def)


lemma fl_7_10: "fl (7 / 10) = 6305039478318694 / 2 ^ 53"
  by code_simp

lemma fl_1: "fl 1 = 1"
  by code_simp

lemma fl_upper: "0 \<le> x \<Longrightarrow> fl x \<le> x + x / 2 ^ 53"
proof -
  assume "0 \<le> x"
  then have "\<bar>fl x - x\<bar> \<le> x / 2 ^ 53" using fl_error [of x] by simp
  then show ?thesis by linarith
qed

lemma fl_lower: "0 \<le> x \<Longrightarrow> x - x / 2 ^ 53 \<le> fl x"
proof -
  assume "0 \<le> x"
  then have "\<bar>fl x - x\<bar> \<le> x / 2 ^ 53" using fl_error [of x] by simp
  then show ?thesis by linarith
qed

lemma fl_nonneg: "0 \<le> x \<Longrightarrow> 0 \<le> fl x"
  using fl_mono [of 0 x] by (simp add: fl_def)

lemma fl_nonpos: "x \<le> 0 \<Longrightarrow> fl x \<le> 0"
  using fl_mono [of x 0] by (simp add: fl_def)

lemma backoff_le:
  assumes "1 \<le> w"
  shows "\<lfloor>fl (of_int w * fl (7 / 10))\<rfloor> \<le> w"
proof -
  define y :: rat where "y = of_int w * fl (7 / 10)"
  have w: "(1::rat) \<le> of_int w" using assms by simp
  have y0: "0 \<le> y" using w by (simp add: y_def fl_7_10)
  have "fl y \<le> y + y / 2 ^ 53" using fl_upper [OF y0] .
  also have "\<dots> \<le> of_int w" using w by (simp add: y_def fl_7_10)
  finally have "fl y \<le> of_int w" .
  then have "\<lfloor>fl y\<rfloor> \<le> \<lfloor>(of_int w :: rat)\<rfloor>" by (rule floor_mono)
  then show ?thesis by (simp add: y_def)
qed

lemma backoff_bounds: "1 \<le> w \<Longrightarrow> 1 \<le> backoff w \<and> backoff w \<le> w"
  using backoff_le [of w] by (simp add: backoff_def)

lemma backoff_10: "backoff 10 = 7"
  by code_simp

lemma backoff_90: "backoff 90 = 62"
  by code_simp

lemma tick_overload:
  assumes "networkCapacity s < sendingRate s"
  shows "simulateNetworkTraffic t s =
    update_chart t
      (s\<lparr>sentPackets := sentPackets s + sendingRate s,
         deliveredPackets := count_add (deliveredPackets s)
           (delivered_of (sendingRate s) (sendingRate s - networkCapacity s)),
         droppedPackets := count_add (droppedPackets s)
           (count_sub (Count (sendingRate s))
              (delivered_of (sendingRate s) (sendingRate s - networkCapacity s))),
         tcpWindowSize := (if currentProtocol s = TCP then backoff (tcpWindowSize s)
           else tcpWindowSize s)\<rparr>)"
proof -
  have ov: "max 0 (sendingRate s - networkCapacity s) = sendingRate s - networkCapacity s"
    using assms by simp
  show ?thesis
    using assms by (simp add: simulateNetworkTraffic_def Let_def ov)
qed

lemma tick_no_overload:
  assumes "sendingRate s \<le> networkCapacity s"
  shows "simulateNetworkTraffic t s =
    update_chart t
      (s\<lparr>sentPackets := sentPackets s + sendingRate s,
         deliveredPackets := count_add (deliveredPackets s) (Count (sendingRate s)),
         tcpWindowSize := (if currentProtocol s = TCP
           then min (packetRate s) (tcpWindowSize s + 1)
           else tcpWindowSize s)\<rparr>)"
  using assms by (simp add: simulateNetworkTraffic_def Let_def)

lemma tick_config [simp]:
  "packetRate (simulateNetworkTraffic t s) = packetRate s"
  "networkCapacity (simulateNetworkTraffic t s) = networkCapacity s"
  "currentProtocol (simulateNetworkTraffic t s) = currentProtocol s"
  "isSimulationRunning (simulateNetworkTraffic t s) = isSimulationRunning s"
  "simulationInterval (simulateNetworkTraffic t s) = simulationInterval s"
  by (simp_all add: simulateNetworkTraffic_def Let_def)

lemma ticks_config [simp]:
  "packetRate (ticks ts s) = packetRate s"
  "networkCapacity (ticks ts s) = networkCapacity s"
  "currentProtocol (ticks ts s) = currentProtocol s"
  by (induction ts arbitrary: s) simp_all

lemma tick_sent [simp]:
  "sentPackets (simulateNetworkTraffic t s) = sentPackets s + sendingRate s"
  by (simp add: simulateNetworkTraffic_def Let_def)

lemma tick_window_bounds:
  assumes "currentProtocol s = TCP" "1 \<le> tcpWindowSize s" "tcpWindowSize s \<le> packetRate s"
  shows "1 \<le> tcpWindowSize (simulateNetworkTraffic t s)
           \<and> tcpWindowSize (simulateNetworkTraffic t s) \<le> packetRate s"
proof (cases "networkCapacity s < sendingRate s")
  case True
  then show ?thesis
    using assms backoff_bounds [OF assms(2)] by (simp add: tick_overload)
next
  case False
  then show ?thesis using assms by (simp add: tick_no_overload)
qed

lemma no_overload_take: "no_overload_run ts s \<Longrightarrow> no_overload_run (take n ts) s"
proof (induction ts arbitrary: s n)
  case Nil
  then show ?case by simp
next
  case (Cons t ts)
  then show ?case by (cases n) auto
qed

lemma no_overload_window:
  assumes "currentProtocol s = TCP" and "tcpWindowSize s \<le> packetRate s"
    and "no_overload_run ts s"
  shows "tcpWindowSize (ticks ts s) = min (packetRate s) (tcpWindowSize s + int (length ts))
     \<and> droppedPackets (ticks ts s) = droppedPackets s"
  using assms
proof (induction ts arbitrary: s)
  case Nil
  then show ?case by simp
next
  case (Cons t ts)
  from Cons.prems(3) have no: "sendingRate s \<le> networkCapacity s" by simp
  let ?s1 = "simulateNetworkTraffic t s"
  have f: "currentProtocol ?s1 = TCP" "packetRate ?s1 = packetRate s"
    "tcpWindowSize ?s1 = min (packetRate s) (tcpWindowSize s + 1)"
    "droppedPackets ?s1 = droppedPackets s"
    using Cons.prems(1) by (simp_all add: tick_no_overload [OF no])
  have run: "no_overload_run ts ?s1" using Cons.prems(3) by simp
  have "tcpWindowSize ?s1 \<le> packetRate ?s1" using f by simp
  from Cons.IH [OF f(1) this run]
  have "tcpWindowSize (ticks ts ?s1) =
          min (packetRate ?s1) (tcpWindowSize ?s1 + int (length ts))"
    "droppedPackets (ticks ts ?s1) = droppedPackets ?s1" by simp_all
  then show ?case using f Cons.prems(2) by simp
qed

section \<open>How far the rounded results are from the exact ones\<close>

lemma delivered_near_capacity:
  fixes R c :: int
  assumes c0: "0 \<le> c" and cR: "c < R" and R51: "R \<le> 2 ^ 51"
  shows "c - 1 \<le> \<lfloor>fl (of_int R * fl (1 - fl (of_int (R - c) / of_int R)))\<rfloor>"
    and "\<lfloor>fl (of_int R * fl (1 - fl (of_int (R - c) / of_int R)))\<rfloor> \<le> c"
proof -
  define r :: rat where "r = of_int R"
  define k :: rat where "k = of_int c"
  define q :: rat where "q = (r - k) / r"
  define a where "a = fl q"
  define t where "t = 1 - a"
  define b where "b = fl t"
  define U where "U = r * t"
  define y where "y = r * b"
  define x where "x = fl y"
  have k0: "0 \<le> k" using c0 by (simp add: k_def)
  have kr: "k < r" using cR by (simp add: k_def r_def)
  have r51: "r \<le> 2 ^ 51"
  proof -
    have "(of_int R :: rat) \<le> of_int (2 ^ 51)" using R51 by (simp only: of_int_le_iff)
    then show ?thesis by (simp add: r_def)
  qed
  have rpos: "0 < r" using k0 kr by linarith
  have q0: "0 \<le> q" and q1: "q \<le> 1"
    using k0 kr rpos by (simp_all add: q_def)
  have rq: "r * q = r - k" using rpos by (simp add: q_def)
  have a0: "0 \<le> a" unfolding a_def using q0 by (rule fl_nonneg)
  have a1: "a \<le> 1" unfolding a_def using fl_mono [OF q1] by (simp add: fl_1)
  have a_up: "a \<le> q + q / 2 ^ 53" unfolding a_def using q0 by (rule fl_upper)
  have a_lo: "q - q / 2 ^ 53 \<le> a" unfolding a_def using q0 by (rule fl_lower)
  have ra_up: "r * a \<le> (r - k) + (r - k) / 2 ^ 53"
  proof -
    have "r * a \<le> r * (q + q / 2 ^ 53)" using a_up rpos by (simp add: mult_left_mono)
    also have "\<dots> = r * q + r * q / 2 ^ 53" by (simp add: algebra_simps)
    finally show ?thesis by (simp only: rq)
  qed
  have ra_lo: "(r - k) - (r - k) / 2 ^ 53 \<le> r * a"
  proof -
    have "r * (q - q / 2 ^ 53) \<le> r * a" using a_lo rpos by (simp add: mult_left_mono)
    moreover have "r * (q - q / 2 ^ 53) = r * q - r * q / 2 ^ 53" by (simp add: algebra_simps)
    ultimately show ?thesis by (simp only: rq)
  qed
  have U_eq: "U = r - r * a" by (simp add: U_def t_def algebra_simps)
  have U_up: "U \<le> k + r / 2 ^ 53 - k / 2 ^ 53"
    using ra_lo U_eq by (simp add: diff_divide_distrib)
  have U_lo: "k - (r / 2 ^ 53 - k / 2 ^ 53) \<le> U"
    using ra_up U_eq by (simp add: diff_divide_distrib)
  have t0: "0 \<le> t" using a1 by (simp add: t_def)
  have U0: "0 \<le> U" using t0 rpos by (simp add: U_def)
  have b0: "0 \<le> b" unfolding b_def using t0 by (rule fl_nonneg)
  have b_up: "b \<le> t + t / 2 ^ 53" unfolding b_def using t0 by (rule fl_upper)
  have b_lo: "t - t / 2 ^ 53 \<le> b" unfolding b_def using t0 by (rule fl_lower)
  have y_up: "y \<le> U + U / 2 ^ 53"
  proof -
    have "r * b \<le> r * (t + t / 2 ^ 53)" using b_up rpos by (simp add: mult_left_mono)
    also have "\<dots> = r * t + r * t / 2 ^ 53" by (simp add: algebra_simps)
    finally show ?thesis by (simp add: y_def U_def)
  qed
  have y_lo: "U - U / 2 ^ 53 \<le> y"
  proof -
    have "r * (t - t / 2 ^ 53) \<le> r * b" using b_lo rpos by (simp add: mult_left_mono)
    moreover have "r * (t - t / 2 ^ 53) = r * t - r * t / 2 ^ 53" by (simp add: algebra_simps)
    ultimately show ?thesis by (simp add: y_def U_def)
  qed
  have y0: "0 \<le> y" using b0 rpos by (simp add: y_def)
  have x_up: "x \<le> y + y / 2 ^ 53" unfolding x_def using y0 by (rule fl_upper)
  have x_lo: "y - y / 2 ^ 53 \<le> x" unfolding x_def using y0 by (rule fl_lower)
  have p53: "(2::rat) ^ 53 = 9007199254740992" and p51: "(2::rat) ^ 51 = 2251799813685248"
    by simp_all
  have "x < k + 1" using x_up y_up U_up k0 kr r51 unfolding p53 p51 by linarith
  then have "x < of_int (c + 1)" by (simp add: k_def)
  then have "\<lfloor>x\<rfloor> < c + 1" by (simp only: floor_less_iff)
  then show "\<lfloor>fl (of_int R * fl (1 - fl (of_int (R - c) / of_int R)))\<rfloor> \<le> c"
    by (simp add: x_def y_def b_def t_def a_def q_def r_def k_def)
  have "k - 1 \<le> x" using x_lo y_lo U_lo k0 kr r51 unfolding p53 p51 by linarith
  then have "of_int (c - 1) \<le> x" by (simp add: k_def)
  then have "c - 1 \<le> \<lfloor>x\<rfloor>" by (simp only: le_floor_iff)
  then show "c - 1 \<le> \<lfloor>fl (of_int R * fl (1 - fl (of_int (R - c) / of_int R)))\<rfloor>"
    by (simp add: x_def y_def b_def t_def a_def q_def r_def k_def)
qed

lemma floor_backoff_near_exact:
  fixes w :: int
  assumes w1: "1 \<le> w" and w51: "w \<le> 2 ^ 51"
  shows "\<lfloor>(of_int w :: rat) * (7 / 10)\<rfloor> - 1 \<le> \<lfloor>fl (of_int w * fl (7 / 10))\<rfloor>"
    and "\<lfloor>fl (of_int w * fl (7 / 10))\<rfloor> \<le> \<lfloor>(of_int w :: rat) * (7 / 10)\<rfloor>"
proof -
  define v :: rat where "v = of_int w"
  define m :: int where "m = 7 * w div 10"
  define j :: int where "j = 7 * w mod 10"
  define y where "y = v * fl (7 / 10)"
  define x where "x = fl y"
  have v1: "1 \<le> v" using w1 by (simp add: v_def)
  have v51: "v \<le> 2 ^ 51"
  proof -
    have "(of_int w :: rat) \<le> of_int (2 ^ 51)" using w51 by (simp only: of_int_le_iff)
    then show ?thesis by (simp add: v_def)
  qed
  have "7 * w = 10 * m + j" by (simp add: m_def j_def)
  then have "(of_int (7 * w) :: rat) = of_int (10 * m + j)" by (simp only:)
  then have e: "7 * v = 10 * of_int m + of_int j" by (simp add: v_def)
  have j0: "(0::rat) \<le> of_int j" and j9: "(of_int j :: rat) \<le> 9"
  proof -
    have "0 \<le> j" "j \<le> 9" by (simp_all add: j_def)
    then show "(0::rat) \<le> of_int j" "(of_int j :: rat) \<le> 9" by simp_all
  qed
  have fm: "\<lfloor>v * (7 / 10)\<rfloor> = m"
  proof -
    have "of_int m \<le> v * (7 / 10)" using e j0 by simp
    moreover have "v * (7 / 10) < of_int m + 1" using e j9 by simp
    ultimately show ?thesis by (simp add: floor_eq_iff)
  qed
  have yv: "y = v * (6305039478318694 / 2 ^ 53)" by (simp add: y_def fl_7_10)
  have y0: "0 \<le> y" using v1 by (simp add: yv)
  have x_up: "x \<le> y + y / 2 ^ 53" unfolding x_def using y0 by (rule fl_upper)
  have x_lo: "y - y / 2 ^ 53 \<le> x" unfolding x_def using y0 by (rule fl_lower)
  have "x < of_int m + 1" using x_up yv e j9 v1 v51 by simp
  then have "x < of_int (m + 1)" by simp
  then have "\<lfloor>x\<rfloor> < m + 1" by (simp only: floor_less_iff)
  then show "\<lfloor>fl (of_int w * fl (7 / 10))\<rfloor> \<le> \<lfloor>(of_int w :: rat) * (7 / 10)\<rfloor>"
    using fm by (simp add: x_def y_def v_def)
  have "of_int m - 1 \<le> x" using x_lo yv e j0 v1 v51 by simp
  then have "of_int (m - 1) \<le> x" by simp
  then have "m - 1 \<le> \<lfloor>x\<rfloor>" by (simp only: le_floor_iff)
  then show "\<lfloor>(of_int w :: rat) * (7 / 10)\<rfloor> - 1 \<le> \<lfloor>fl (of_int w * fl (7 / 10))\<rfloor>"
    using fm by (simp add: x_def y_def v_def)
qed

lemma backoff_near_exact:
  assumes "1 \<le> w" and "w \<le> 2 ^ 51"
  shows "backoff_exact w - 1 \<le> backoff w \<and> backoff w \<le> backoff_exact w"
  using floor_backoff_near_exact [OF assms]
  unfolding backoff_def backoff_exact_def by linarith

lemma delivered_exact_eq:
  assumes "rate \<noteq> 0"
  shows "delivered_exact rate (rate - capacity) = capacity"
proof -
  have "(of_int rate :: rat) * (1 - of_int (rate - capacity) / of_int rate) = of_int capacity"
    using assms by (simp add: field_simps)
  then show ?thesis by (simp add: delivered_exact_def Let_def)
qed




lemma delivered_10_8: "delivered_of 10 8 = Count 1"
  by code_simp

lemma delivered_10_5: "delivered_of 10 5 = Count 5"
  by code_simp

section \<open>Conservation, and the tick that loses it\<close>


lemma count_add_nan_right [simp]: "count_add v NotANumber = NotANumber"
  by (cases v) simp_all

lemma count_sub_nan_right [simp]: "count_sub v NotANumber = NotANumber"
  by (cases v) simp_all







section \<open>The chart buffer\<close>

lemma chart_push_chart_of:
  "chart_push t th l (chart_of ys) =
     chart_of (if 8 < length ys + 1 then tl (ys @ [(t, th, l)]) else ys @ [(t, th, l)])"
  by (cases ys) (simp_all add: chart_push_def chart_of_def Let_def)

lemma pushes_chart_of:
  "length ys \<le> 8 \<Longrightarrow>
   pushes xs (chart_of ys) = chart_of (drop (length (ys @ xs) - 8) (ys @ xs))"
proof (induction xs arbitrary: ys)
  case Nil
  then show ?case by simp
next
  case (Cons x xs)
  obtain t th l where x: "x = (t, th, l)" by (cases x) auto
  show ?case
  proof (cases "length ys = 8")
    case True
    then obtain y ys' where ys: "ys = y # ys'" by (cases ys) auto
    with True have len: "length ys' = 7" by simp
    have "pushes (x # xs) (chart_of ys) = pushes xs (chart_of (ys' @ [x]))"
      using True by (simp add: x chart_push_chart_of ys)
    also have "\<dots> = chart_of (drop (length ((ys' @ [x]) @ xs) - 8) ((ys' @ [x]) @ xs))"
      by (rule Cons.IH) (simp add: len)
    also have "\<dots> = chart_of (drop (length (ys @ x # xs) - 8) (ys @ x # xs))"
      by (simp add: ys len Suc_diff_le)
    finally show ?thesis .
  next
    case False
    with Cons.prems have lt: "length ys < 8" by simp
    have "pushes (x # xs) (chart_of ys) = pushes xs (chart_of (ys @ [x]))"
      using lt by (simp add: x chart_push_chart_of)
    also have "\<dots> = chart_of (drop (length ((ys @ [x]) @ xs) - 8) ((ys @ [x]) @ xs))"
      by (rule Cons.IH) (use lt in simp)
    finally show ?thesis by simp
  qed
qed

lemma chart_of_Nil: "chart_of [] = empty_chart"
  by (simp add: chart_of_def empty_chart_def)

lemma tick_chart:
  "chartData (simulateNetworkTraffic t s) =
     chart_push t
       (count_sub (deliveredPackets (simulateNetworkTraffic t s))
          (last_or_zero (throughput (chartData s))))
       (droppedPackets (simulateNetworkTraffic t s)) (chartData s)"
  by (simp add: simulateNetworkTraffic_def update_chart_def Let_def)

lemma chart_push_ok: "chart_ok c \<Longrightarrow> chart_ok (chart_push t th l c)"
  by (auto simp: chart_ok_def chart_push_def Let_def)

lemma reachable_chart_ok: "reachable s \<Longrightarrow> chart_ok (chartData s)"
proof (induction rule: reachable.induct)
  case (r_tick s t)
  then show ?case by (simp add: tick_chart chart_push_ok)
qed (simp_all add: chart_ok_def initial_state_def empty_chart_def packetRate_input_def
    networkCapacity_input_def setProtocol_def resetSimulation_def resetCharts_def
    resetNetworkStats_def pauseSimulation_def startSimulation_def Let_def)

lemma tick_throughput_sample:
  assumes "chart_ok (chartData s)"
  shows "last (throughput (chartData (simulateNetworkTraffic t s))) =
           count_sub (deliveredPackets (simulateNetworkTraffic t s))
             (last_or_zero (throughput (chartData s)))"
proof (cases "throughput (chartData s)")
  case Nil
  with assms show ?thesis
    by (simp add: tick_chart chart_push_def Let_def chart_ok_def)
next
  case (Cons a as)
  then show ?thesis
    by (simp add: tick_chart chart_push_def Let_def)
qed

section \<open>The first ticks after the start button\<close>

lemma start_initial_lit:
  "startSimulation initial_state =
     \<lparr>packetRate = 10, networkCapacity = 15, sentPackets = 0, deliveredPackets = Count 0,
      droppedPackets = Count 0, currentProtocol = TCP, isSimulationRunning = True,
      simulationInterval = True, tcpWindowSize = 1, chartData = empty_chart\<rparr>"
  by (simp add: startSimulation_def initial_state_def resetNetworkStats_def)

lemmas tick_eval = simulateNetworkTraffic_def sendingRate_def update_chart_def chart_push_def
  last_or_zero_def empty_chart_def Let_def

lemma tick_eval_1:
  "simulateNetworkTraffic ''10:00:01'' (startSimulation initial_state) =
     \<lparr>packetRate = 10, networkCapacity = 15, sentPackets = 1, deliveredPackets = Count 1,
      droppedPackets = Count 0, currentProtocol = TCP, isSimulationRunning = True,
      simulationInterval = True, tcpWindowSize = 2,
      chartData = \<lparr>time = [''10:00:01''], throughput = [Count 1], loss = [Count 0]\<rparr>\<rparr>"
  by (simp add: start_initial_lit tick_eval)

lemma tick_eval_2:
  "simulateNetworkTraffic ''10:00:02''
     \<lparr>packetRate = 10, networkCapacity = 15, sentPackets = 1, deliveredPackets = Count 1,
      droppedPackets = Count 0, currentProtocol = TCP, isSimulationRunning = True,
      simulationInterval = True, tcpWindowSize = 2,
      chartData = \<lparr>time = [''10:00:01''], throughput = [Count 1], loss = [Count 0]\<rparr>\<rparr> =
     \<lparr>packetRate = 10, networkCapacity = 15, sentPackets = 3, deliveredPackets = Count 3,
      droppedPackets = Count 0, currentProtocol = TCP, isSimulationRunning = True,
      simulationInterval = True, tcpWindowSize = 3,
      chartData = \<lparr>time = [''10:00:01'', ''10:00:02''], throughput = [Count 1, Count 2],
        loss = [Count 0, Count 0]\<rparr>\<rparr>"
  by (simp add: tick_eval)

lemma tick_eval_3:
  "simulateNetworkTraffic ''10:00:03''
     \<lparr>packetRate = 10, networkCapacity = 15, sentPackets = 3, deliveredPackets = Count 3,
      droppedPackets = Count 0, currentProtocol = TCP, isSimulationRunning = True,
      simulationInterval = True, tcpWindowSize = 3,
      chartData = \<lparr>time = [''10:00:01'', ''10:00:02''], throughput = [Count 1, Count 2],
        loss = [Count 0, Count 0]\<rparr>\<rparr> =
     \<lparr>packetRate = 10, networkCapacity = 15, sentPackets = 6, deliveredPackets = Count 6,
      droppedPackets = Count 0, currentProtocol = TCP, isSimulationRunning = True,
      simulationInterval = True, tcpWindowSize = 4,
      chartData = \<lparr>time = [''10:00:01'', ''10:00:02'', ''10:00:03''],
        throughput = [Count 1, Count 2, Count 4], loss = [Count 0, Count 0, Count 0]\<rparr>\<rparr>"
  by (simp add: tick_eval)

section \<open>Utilization against the exact thresholds\<close>

lemma utilization_finite:
  "c \<noteq> 0 \<Longrightarrow> utilization p c = Finite (fl (fl (of_int p / of_int c) * 100))"
  by (simp add: utilization_def js_int_def)

lemma utilization_below:
  fixes p c a b :: int
  assumes c: "1 \<le> c" and ac: "3 * (a * c) \<le> 2 ^ 53" and a: "0 < a" and b: "0 < b"
    and lt: "b * p < a * c"
  shows "fl (fl (of_int p / of_int c) * 100) < 100 * of_int a / of_int b"
proof (cases "0 < p")
  case False
  then have "(of_int p :: rat) / of_int c \<le> 0"
    using c by (simp add: divide_le_0_iff)
  then have "fl (of_int p / of_int c) * 100 \<le> 0"
    using fl_nonpos by (simp add: mult_le_0_iff)
  then have "fl (fl (of_int p / of_int c) * 100) \<le> 0" by (rule fl_nonpos)
  moreover have "(0::rat) < 100 * of_int a / of_int b" using a b by simp
  ultimately show ?thesis by linarith
next
  case True
  define q :: rat where "q = of_int p / of_int c"
  define B :: rat where "B = of_int b * of_int c"
  define P :: rat where "P = of_int b * of_int p"
  define m :: rat where "m = of_int (a * c)"
  define K :: rat where "K = (1 + 1 / 2 ^ 53) * (1 + 1 / 2 ^ 53)"
  have Bpos: "0 < B" using b c by (simp add: B_def)
  have q0: "0 \<le> q" using True c by (simp add: q_def)
  have qPB: "q = P / B" using b c by (simp add: q_def P_def B_def)
  have "b * p \<le> a * c - 1" using lt by simp
  then have "(of_int (b * p) :: rat) \<le> of_int (a * c - 1)" by (simp only: of_int_le_iff)
  then have Pm: "P \<le> m - 1" by (simp add: P_def m_def)
  have "(of_int (3 * (a * c)) :: rat) \<le> of_int (2 ^ 53)" using ac by (simp only: of_int_le_iff)
  then have m3: "3 * m \<le> 2 ^ 53" by (simp add: m_def)
  have Km: "K * (m - 1) < m" using m3 unfolding K_def by (simp add: algebra_simps)
  have Kpos: "0 < K" by (simp add: K_def)
  have f1: "fl q \<le> q * (1 + 1 / 2 ^ 53)" using fl_upper [OF q0] by (simp add: algebra_simps)
  have f0: "0 \<le> fl q * 100" using fl_nonneg [OF q0] by simp
  have "fl (fl q * 100) \<le> fl q * 100 * (1 + 1 / 2 ^ 53)"
    using fl_upper [OF f0] by (simp add: algebra_simps)
  also have "\<dots> \<le> (q * (1 + 1 / 2 ^ 53)) * 100 * (1 + 1 / 2 ^ 53)"
    using f1 by simp
  also have "\<dots> = 100 * (K * P) / B" by (simp add: K_def qPB)
  also have "\<dots> < 100 * m / B"
  proof -
    have "K * P \<le> K * (m - 1)" using Pm Kpos by simp
    with Km have "K * P < m" by linarith
    then show ?thesis using Bpos by (simp add: divide_strict_right_mono)
  qed
  also have "\<dots> = 100 * of_int a / of_int b"
    using b c by (simp add: m_def B_def)
  finally show ?thesis by (simp add: q_def)
qed

lemma utilization_above:
  fixes p c a b :: int
  assumes c: "1 \<le> c" and b: "0 < b" and ge: "a * c \<le> b * p"
  shows "fl (fl (of_int a / of_int b) * 100) \<le> fl (fl (of_int p / of_int c) * 100)"
proof -
  have "(of_int (a * c) :: rat) \<le> of_int (b * p)" using ge by (simp only: of_int_le_iff)
  then have "(of_int a :: rat) / of_int b \<le> of_int p / of_int c"
    using b c by (simp add: field_simps)
  then have "fl (of_int a / of_int b) \<le> fl (of_int p / of_int c)" by (rule fl_mono)
  then have "fl (of_int a / of_int b) * 100 \<le> fl (of_int p / of_int c) * 100" by simp
  then show ?thesis by (rule fl_mono)
qed

lemma fl_60: "fl (fl (3 / 5) * 100) = 60"
  by code_simp

lemma fl_85: "fl (fl (17 / 20) * 100) = 85"
  by code_simp

lemma utilization_lt_60:
  assumes "1 \<le> c" and "c \<le> 2 ^ 47"
  shows "fl (fl (of_int p / of_int c) * 100) < 60 \<longleftrightarrow> 5 * p < 3 * c"
proof
  assume l: "fl (fl (of_int p / of_int c) * 100) < 60"
  show "5 * p < 3 * c"
  proof (rule ccontr)
    assume "\<not> 5 * p < 3 * c"
    then have "3 * c \<le> 5 * p" by simp
    from utilization_above [OF assms(1) _ this] have "60 \<le> fl (fl (of_int p / of_int c) * 100)"
      by (simp add: fl_60)
    with l show False by simp
  qed
next
  assume "5 * p < 3 * c"
  moreover have "3 * (3 * c) \<le> (2::int) ^ 53" using assms(2) by simp
  ultimately have "fl (fl (of_int p / of_int c) * 100) < 100 * of_int 3 / of_int 5"
    using assms(1) by (intro utilization_below) simp_all
  then show "fl (fl (of_int p / of_int c) * 100) < 60" by simp
qed

lemma utilization_lt_85:
  assumes "1 \<le> c" and "c \<le> 2 ^ 47"
  shows "fl (fl (of_int p / of_int c) * 100) < 85 \<longleftrightarrow> 20 * p < 17 * c"
proof
  assume l: "fl (fl (of_int p / of_int c) * 100) < 85"
  show "20 * p < 17 * c"
  proof (rule ccontr)
    assume "\<not> 20 * p < 17 * c"
    then have "17 * c \<le> 20 * p" by simp
    from utilization_above [OF assms(1) _ this] have "85 \<le> fl (fl (of_int p / of_int c) * 100)"
      by (simp add: fl_85)
    with l show False by simp
  qed
next
  assume "20 * p < 17 * c"
  moreover have "3 * (17 * c) \<le> (2::int) ^ 53" using assms(2) by simp
  ultimately have "fl (fl (of_int p / of_int c) * 100) < 100 * of_int 17 / of_int 20"
    using assms(1) by (intro utilization_below) simp_all
  then show "fl (fl (of_int p / of_int c) * 100) < 85" by simp
qed

lemma status_above_bound:
  "networkStatus 3365203401168991 5608672335281652 = Warning"
  by code_simp

section \<open>A capacity of zero\<close>


section \<open>A constant-rate sender above the capacity\<close>

lemma count_add_assoc_int [simp]:
  "count_add (count_add v (Count a)) (Count b) = count_add v (Count (a + b))"
  by (cases v) simp_all



lemma backoff_exact_90: "backoff_exact 90 = 63"
  by (simp add: backoff_exact_def)

section \<open>The claims\<close>




text \<open>
  C2. Under TCP with a packet rate of at least 1 and a window that starts at 1, after any
  number of ticks the configured rate is as it was and the window is between 1 and the
  packet rate.
\<close>

theorem tcp_window_bounds:
  assumes "currentProtocol s = TCP" and "1 \<le> packetRate s" and "tcpWindowSize s = 1"
  shows "packetRate (ticks ts s) = packetRate s
           \<and> 1 \<le> tcpWindowSize (ticks ts s)
           \<and> tcpWindowSize (ticks ts s) \<le> packetRate (ticks ts s)"
proof -
  have "currentProtocol s = TCP \<Longrightarrow> 1 \<le> tcpWindowSize s \<Longrightarrow> tcpWindowSize s \<le> packetRate s \<Longrightarrow>
        1 \<le> tcpWindowSize (ticks ts s) \<and> tcpWindowSize (ticks ts s) \<le> packetRate s" for s
  proof (induction ts arbitrary: s)
    case Nil
    then show ?case by simp
  next
    case (Cons t ts)
    let ?s1 = "simulateNetworkTraffic t s"
    from tick_window_bounds [OF Cons.prems, of t]
    have w1: "1 \<le> tcpWindowSize ?s1" "tcpWindowSize ?s1 \<le> packetRate ?s1" by simp_all
    have "currentProtocol ?s1 = TCP" using Cons.prems(1) by simp
    from Cons.IH [OF this w1] show ?case by simp
  qed
  with assms show ?thesis by simp
qed

theorem tcp_window_bounds_witness:
  "currentProtocol (networkCapacity_input 5 initial_state) = TCP
   \<and> 1 \<le> packetRate (networkCapacity_input 5 initial_state)
   \<and> tcpWindowSize (networkCapacity_input 5 initial_state) = 1
   \<and> 1 \<le> tcpWindowSize (ticks [''10:00:01'', ''10:00:02'', ''10:00:03'', ''10:00:04'',
            ''10:00:05'', ''10:00:06'', ''10:00:07'', ''10:00:08'']
          (networkCapacity_input 5 initial_state))
   \<and> tcpWindowSize (ticks [''10:00:01'', ''10:00:02'', ''10:00:03'', ''10:00:04'',
            ''10:00:05'', ''10:00:06'', ''10:00:07'', ''10:00:08'']
          (networkCapacity_input 5 initial_state)) \<le> 10"
proof -
  have h: "currentProtocol (networkCapacity_input 5 initial_state) = TCP"
    "1 \<le> packetRate (networkCapacity_input 5 initial_state)"
    "tcpWindowSize (networkCapacity_input 5 initial_state) = 1"
    "packetRate (networkCapacity_input 5 initial_state) = 10"
    by (simp_all add: networkCapacity_input_def initial_state_def)
  from tcp_window_bounds [OF h(1-3), of "[''10:00:01'', ''10:00:02'', ''10:00:03'',
      ''10:00:04'', ''10:00:05'', ''10:00:06'', ''10:00:07'', ''10:00:08'']"]
  show ?thesis using h by simp
qed

text \<open>
  C3, as the claim states it, fails: the script computes its formulas in doubles, and the
  floor of a rounded product can be one below the floor of the exact one. A UDP sender
  at a rate of 10 against a capacity of 2 has 1 packet delivered where
  \<open>floor(10 * (1 - 8/10))\<close> is 2, and an overload tick from a window of 90 leaves a window
  of 62 where \<open>max(1, floor(90 * 0.7))\<close> is 63.
\<close>

theorem overload_formulas_rounded:
  "deliveredPackets (simulateNetworkTraffic ''10:00:01''
      (initial_state\<lparr>currentProtocol := UDP, networkCapacity := 2\<rparr>)) = Count 1
   \<and> droppedPackets (simulateNetworkTraffic ''10:00:01''
      (initial_state\<lparr>currentProtocol := UDP, networkCapacity := 2\<rparr>)) = Count 9
   \<and> delivered_exact 10 (10 - 2) = 2
   \<and> tcpWindowSize (simulateNetworkTraffic ''10:00:01''
      (initial_state\<lparr>packetRate := 100, networkCapacity := 50, tcpWindowSize := 90\<rparr>)) = 62
   \<and> backoff_exact 90 = 63"
  by (simp add: simulateNetworkTraffic_def sendingRate_def initial_state_def Let_def
      delivered_10_8 backoff_90 backoff_exact_90 delivered_exact_def)

text \<open>
  C3, amended. A tick whose sending rate exceeds the capacity (and is not zero) sends the
  rate, delivers \<open>floor(sendingRate * (1 - overload / sendingRate))\<close> with the quotient,
  the difference and the product each rounded to the nearest double, and drops the rate
  minus the delivered. For a capacity of 0 or more and a rate up to \<open>2^51\<close> the
  delivered number is the exact floor or one less. Under TCP the new window is
  \<open>max(1, floor(windowSize * 0.7))\<close> with 0.7 and the product rounded to doubles, for a
  window from 1 to \<open>2^51\<close> the exact value or one less, and 7 from a window of 10; under
  UDP the window stays.
\<close>

theorem overload_branch:
  assumes "networkCapacity s < sendingRate s" and "sendingRate s \<noteq> 0"
  shows "\<exists>delivered.
       delivered = \<lfloor>fl (of_int (sendingRate s) *
           fl (1 - fl (of_int (sendingRate s - networkCapacity s) / of_int (sendingRate s))))\<rfloor>
     \<and> sentPackets (simulateNetworkTraffic t s) = sentPackets s + sendingRate s
     \<and> deliveredPackets (simulateNetworkTraffic t s) =
         count_add (deliveredPackets s) (Count delivered)
     \<and> droppedPackets (simulateNetworkTraffic t s) =
         count_add (droppedPackets s) (Count (sendingRate s - delivered))
     \<and> (0 \<le> networkCapacity s \<and> sendingRate s \<le> 2 ^ 51 \<longrightarrow>
          delivered_exact (sendingRate s) (sendingRate s - networkCapacity s) - 1 \<le> delivered
          \<and> delivered \<le> delivered_exact (sendingRate s) (sendingRate s - networkCapacity s))
     \<and> tcpWindowSize (simulateNetworkTraffic t s) =
         (if currentProtocol s = TCP
          then max 1 \<lfloor>fl (of_int (tcpWindowSize s) * fl (7 / 10))\<rfloor>
          else tcpWindowSize s)
     \<and> (currentProtocol s = TCP \<and> 1 \<le> tcpWindowSize s \<and> tcpWindowSize s \<le> 2 ^ 51 \<longrightarrow>
          backoff_exact (tcpWindowSize s) - 1 \<le> tcpWindowSize (simulateNetworkTraffic t s)
          \<and> tcpWindowSize (simulateNetworkTraffic t s) \<le> backoff_exact (tcpWindowSize s))
     \<and> (currentProtocol s = TCP \<and> tcpWindowSize s = 10 \<longrightarrow>
          tcpWindowSize (simulateNetworkTraffic t s) = 7)"
proof -
  let ?R = "sendingRate s" and ?c = "networkCapacity s"
  let ?d = "\<lfloor>fl (of_int ?R * fl (1 - fl (of_int (?R - ?c) / of_int ?R)))\<rfloor>"
  have d: "delivered_of ?R (?R - ?c) = Count ?d"
    using assms(2) by (rule delivered_of_finite)
  have near: "0 \<le> ?c \<and> ?R \<le> 2 ^ 51 \<longrightarrow>
      delivered_exact ?R (?R - ?c) - 1 \<le> ?d \<and> ?d \<le> delivered_exact ?R (?R - ?c)"
    using delivered_near_capacity [of ?c ?R] assms
    by (simp add: delivered_exact_eq)
  have win: "currentProtocol s = TCP \<and> 1 \<le> tcpWindowSize s \<and> tcpWindowSize s \<le> 2 ^ 51 \<longrightarrow>
      backoff_exact (tcpWindowSize s) - 1 \<le> tcpWindowSize (simulateNetworkTraffic t s)
      \<and> tcpWindowSize (simulateNetworkTraffic t s) \<le> backoff_exact (tcpWindowSize s)"
    using backoff_near_exact [of "tcpWindowSize s"]
    by (simp add: tick_overload [OF assms(1)])
  have ten: "currentProtocol s = TCP \<and> tcpWindowSize s = 10 \<longrightarrow>
      tcpWindowSize (simulateNetworkTraffic t s) = 7"
    by (simp add: tick_overload [OF assms(1)] backoff_10)
  have "sentPackets (simulateNetworkTraffic t s) = sentPackets s + ?R
     \<and> deliveredPackets (simulateNetworkTraffic t s) = count_add (deliveredPackets s) (Count ?d)
     \<and> droppedPackets (simulateNetworkTraffic t s) =
         count_add (droppedPackets s) (Count (?R - ?d))
     \<and> tcpWindowSize (simulateNetworkTraffic t s) =
         (if currentProtocol s = TCP
          then max 1 \<lfloor>fl (of_int (tcpWindowSize s) * fl (7 / 10))\<rfloor>
          else tcpWindowSize s)"
    by (simp add: tick_overload [OF assms(1)] d backoff_def)
  with near win ten show ?thesis by blast
qed

theorem overload_branch_witness:
  "networkCapacity (initial_state\<lparr>networkCapacity := 5, tcpWindowSize := 10\<rparr>)
     < sendingRate (initial_state\<lparr>networkCapacity := 5, tcpWindowSize := 10\<rparr>)
   \<and> sendingRate (initial_state\<lparr>networkCapacity := 5, tcpWindowSize := 10\<rparr>) \<noteq> 0
   \<and> sentPackets (simulateNetworkTraffic ''10:00:01''
        (initial_state\<lparr>networkCapacity := 5, tcpWindowSize := 10\<rparr>)) = 10
   \<and> deliveredPackets (simulateNetworkTraffic ''10:00:01''
        (initial_state\<lparr>networkCapacity := 5, tcpWindowSize := 10\<rparr>)) = Count 5
   \<and> droppedPackets (simulateNetworkTraffic ''10:00:01''
        (initial_state\<lparr>networkCapacity := 5, tcpWindowSize := 10\<rparr>)) = Count 5
   \<and> tcpWindowSize (simulateNetworkTraffic ''10:00:01''
        (initial_state\<lparr>networkCapacity := 5, tcpWindowSize := 10\<rparr>)) = 7"
proof -
  let ?s = "initial_state\<lparr>networkCapacity := 5, tcpWindowSize := 10\<rparr>"
  have h: "networkCapacity ?s < sendingRate ?s" "sendingRate ?s \<noteq> 0"
    "sendingRate ?s = 10" "networkCapacity ?s = 5" "sentPackets ?s = 0"
    "deliveredPackets ?s = Count 0" "droppedPackets ?s = Count 0"
    "currentProtocol ?s = TCP" "tcpWindowSize ?s = 10"
    by (simp_all add: sendingRate_def initial_state_def)
  have d: "\<lfloor>fl (of_int (10::int) * fl (1 - fl (of_int (10 - 5 :: int) / of_int 10)))\<rfloor> = 5"
    using delivered_10_5 by (simp add: delivered_of_finite)
  from overload_branch [OF h(1,2), of "''10:00:01''"]
  show ?thesis using h d by auto
qed

text \<open>
  C4. A tick whose sending rate does not exceed the capacity delivers all it sends and
  drops nothing; under TCP the window becomes \<open>min packetRate (window + 1)\<close>. Over a
  run of such ticks under TCP, from a window below the packet rate, the window after
  \<open>n\<close> ticks is \<open>min packetRate (window + n)\<close>: one more per tick until it reaches the
  packet rate.
\<close>

theorem no_overload_branch:
  "(sendingRate s \<le> networkCapacity s \<longrightarrow>
        sentPackets (simulateNetworkTraffic t s) = sentPackets s + sendingRate s
      \<and> deliveredPackets (simulateNetworkTraffic t s) =
          count_add (deliveredPackets s) (Count (sendingRate s))
      \<and> (\<forall>d. deliveredPackets s = Count d \<longrightarrow>
            deliveredPackets (simulateNetworkTraffic t s) = Count (d + sendingRate s))
      \<and> droppedPackets (simulateNetworkTraffic t s) = droppedPackets s
      \<and> tcpWindowSize (simulateNetworkTraffic t s) =
          (if currentProtocol s = TCP then min (packetRate s) (tcpWindowSize s + 1)
           else tcpWindowSize s))
   \<and> (currentProtocol s = TCP \<and> tcpWindowSize s < packetRate s \<and> no_overload_run ts s \<longrightarrow>
      (\<forall>n \<le> length ts.
         tcpWindowSize (ticks (take n ts) s) = min (packetRate s) (tcpWindowSize s + int n)))"
proof (intro conjI impI allI)
  assume no: "sendingRate s \<le> networkCapacity s"
  show "sentPackets (simulateNetworkTraffic t s) = sentPackets s + sendingRate s"
    by simp
  show "deliveredPackets (simulateNetworkTraffic t s) =
          count_add (deliveredPackets s) (Count (sendingRate s))"
    by (simp add: tick_no_overload [OF no])
  show "droppedPackets (simulateNetworkTraffic t s) = droppedPackets s"
    by (simp add: tick_no_overload [OF no])
  show "tcpWindowSize (simulateNetworkTraffic t s) =
          (if currentProtocol s = TCP then min (packetRate s) (tcpWindowSize s + 1)
           else tcpWindowSize s)"
    by (simp add: tick_no_overload [OF no])
  fix d
  assume "deliveredPackets s = Count d"
  then show "deliveredPackets (simulateNetworkTraffic t s) = Count (d + sendingRate s)"
    by (simp add: tick_no_overload [OF no])
next
  fix n
  assume a: "currentProtocol s = TCP \<and> tcpWindowSize s < packetRate s \<and> no_overload_run ts s"
    and n: "n \<le> length ts"
  from a have "no_overload_run (take n ts) s" by (simp add: no_overload_take)
  with a no_overload_window [of s "take n ts"] n
  show "tcpWindowSize (ticks (take n ts) s) = min (packetRate s) (tcpWindowSize s + int n)"
    by (simp add: min_def)
qed

theorem no_overload_branch_witness:
  "sendingRate (startSimulation initial_state) \<le> networkCapacity (startSimulation initial_state)
   \<and> currentProtocol (startSimulation initial_state) = TCP
   \<and> tcpWindowSize (startSimulation initial_state) < packetRate (startSimulation initial_state)
   \<and> no_overload_run [''10:00:01'', ''10:00:02'', ''10:00:03''] (startSimulation initial_state)
   \<and> tcpWindowSize (ticks [''10:00:01'', ''10:00:02'', ''10:00:03'']
        (startSimulation initial_state)) = 4
   \<and> deliveredPackets (simulateNetworkTraffic ''10:00:01'' (startSimulation initial_state))
       = Count 1
   \<and> droppedPackets (simulateNetworkTraffic ''10:00:01'' (startSimulation initial_state))
       = Count 0
   \<and> tcpWindowSize (simulateNetworkTraffic ''10:00:01'' (startSimulation initial_state)) = 2"
proof -
  let ?s = "startSimulation initial_state"
  let ?ts = "[''10:00:01'', ''10:00:02'', ''10:00:03'']"
  have h: "sendingRate ?s \<le> networkCapacity ?s" "currentProtocol ?s = TCP"
    "tcpWindowSize ?s < packetRate ?s" "sendingRate ?s = 1" "tcpWindowSize ?s = 1"
    "packetRate ?s = 10" "deliveredPackets ?s = Count 0" "droppedPackets ?s = Count 0"
    by (simp_all add: start_initial_lit sendingRate_def)
  have run: "no_overload_run ?ts ?s"
    by (simp add: tick_eval_1 tick_eval_2 tick_eval_3 h(1)) (simp add: sendingRate_def)
  have "length ?ts \<le> length ?ts" by simp
  with no_overload_branch [of ?s "''10:00:01''" ?ts] h run
  have "tcpWindowSize (ticks (take (length ?ts) ?ts) ?s)
          = min (packetRate ?s) (tcpWindowSize ?s + int (length ?ts))"
    by blast
  then have a: "tcpWindowSize (ticks ?ts ?s) = 4"
    using h by simp
  from no_overload_branch [of ?s "''10:00:01''" ?ts] h
  have b: "deliveredPackets (simulateNetworkTraffic ''10:00:01'' ?s) = Count 1
         \<and> droppedPackets (simulateNetworkTraffic ''10:00:01'' ?s) = Count 0
         \<and> tcpWindowSize (simulateNetworkTraffic ''10:00:01'' ?s) = 2"
    by auto
  from a b h run show ?thesis by blast
qed

text \<open>
  C5, as the claim states it, fails: beyond some \<open>10^15\<close> the rounded quotient can
  land on a threshold that the exact utilization stays below. With a packet rate of
  3365203401168991 against a capacity of 5608672335281652 the exact utilization is
  below 60 and the status is Warning.
\<close>

theorem classification_above_bound:
  "(1::int) \<le> 5608672335281652
   \<and> (of_int 3365203401168991 :: rat) / of_int 5608672335281652 * 100 < 60
   \<and> networkStatus 3365203401168991 5608672335281652 = Warning"
  using status_above_bound by simp

text \<open>
  C5, amended. For a capacity from 1 to \<open>2^47\<close> and any packet rate, the status
  computed with doubles is the one the exact utilization
  \<open>packetRate / networkCapacity * 100\<close> gives: Normal below 60, Warning from 60 to below
  85, Congested from 85 on.
\<close>

theorem utilization_classification:
  assumes "1 \<le> c" and "c \<le> 2 ^ 47"
  shows "networkStatus p c =
     (if (of_int p :: rat) / of_int c * 100 < 60 then Normal
      else if (of_int p :: rat) / of_int c * 100 < 85 then Warning
      else Congested)"
proof -
  have c0: "c \<noteq> 0" using assms(1) by simp
  have e60: "(of_int p :: rat) / of_int c * 100 < 60 \<longleftrightarrow> 5 * p < 3 * c"
  proof -
    have "(of_int p :: rat) / of_int c * 100 < 60 \<longleftrightarrow> (of_int (5 * p) :: rat) < of_int (3 * c)"
      using assms(1) by (simp add: field_simps)
    then show ?thesis by (simp only: of_int_less_iff)
  qed
  have e85: "(of_int p :: rat) / of_int c * 100 < 85 \<longleftrightarrow> 20 * p < 17 * c"
  proof -
    have "(of_int p :: rat) / of_int c * 100 < 85 \<longleftrightarrow> (of_int (20 * p) :: rat) < of_int (17 * c)"
      using assms(1) by (simp add: field_simps)
    then show ?thesis by (simp only: of_int_less_iff)
  qed
  show ?thesis
    unfolding e60 e85
    by (simp add: networkStatus_def utilization_finite [OF c0] js_int_def Let_def
        utilization_lt_60 [OF assms] utilization_lt_85 [OF assms])
qed

theorem utilization_classification_witness:
  "(1::int) \<le> 100 \<and> (100::int) \<le> 2 ^ 47
   \<and> networkStatus 59 100 = Normal \<and> networkStatus 60 100 = Warning
   \<and> networkStatus 85 100 = Congested \<and> networkStatus 150 100 = Congested"
  using utilization_classification [of 100 59] utilization_classification [of 100 60]
    utilization_classification [of 100 85] utilization_classification [of 100 150]
  by simp

text \<open>
  C6. The sample pushed as throughput is the delivered total minus the previous
  \<^emph>\<open>sample\<close> (\<open>tick_throughput_sample\<close>), not minus the previous delivered total.
  After the start button, with the initial configuration, the delivered totals of the
  first three ticks are 1, 3 and 6, and the samples are 1, 2 and 4: the third is
  \<open>6 - 2\<close>, where the first difference of the totals is \<open>6 - 3\<close>.
\<close>

theorem throughput_sample_third_tick:
  "\<exists>s1 s2 s3.
     simulateNetworkTraffic ''10:00:01'' (startSimulation initial_state) = s1
   \<and> simulateNetworkTraffic ''10:00:02'' s1 = s2
   \<and> simulateNetworkTraffic ''10:00:03'' s2 = s3
   \<and> deliveredPackets s1 = Count 1 \<and> deliveredPackets s2 = Count 3
   \<and> deliveredPackets s3 = Count 6
   \<and> throughput (chartData s3) = [Count 1, Count 2, Count 4]"
  using tick_eval_1 tick_eval_2 tick_eval_3 by simp

text \<open>
  C7. Pushing any sequence of samples into the empty chart leaves its last eight, in
  their order; so the chart never holds more than eight, and nine pushes leave the
  second to the ninth sample, the first one evicted. (Every chart the page reaches is
  built this way: \<open>tick_chart\<close>, \<open>reachable_chart_ok\<close>.)
\<close>

theorem bounded_fifo_buffer:
  "pushes xs empty_chart = chart_of (drop (length xs - 8) xs)
   \<and> length (time (pushes xs empty_chart)) \<le> 8
   \<and> length (throughput (pushes xs empty_chart)) \<le> 8
   \<and> length (loss (pushes xs empty_chart)) \<le> 8
   \<and> pushes [x1, x2, x3, x4, x5, x6, x7, x8, x9] empty_chart
       = chart_of [x2, x3, x4, x5, x6, x7, x8, x9]"
proof -
  have eq: "pushes zs empty_chart = chart_of (drop (length zs - 8) zs)" for zs
    using pushes_chart_of [of "[]" zs] by (simp add: chart_of_Nil)
  have "pushes [x1, x2, x3, x4, x5, x6, x7, x8, x9] empty_chart
       = chart_of [x2, x3, x4, x5, x6, x7, x8, x9]"
    by (simp add: eq)
  then show ?thesis by (simp add: eq chart_of_def)
qed

theorem bounded_fifo_buffer_witness:
  "pushes [(''10:00:01'', Count 1, Count 0), (''10:00:02'', Count 2, Count 0),
           (''10:00:03'', Count 3, Count 0), (''10:00:04'', Count 4, Count 0),
           (''10:00:05'', Count 5, Count 0), (''10:00:06'', Count 6, Count 0),
           (''10:00:07'', Count 7, Count 1), (''10:00:08'', Count 8, Count 1),
           (''10:00:09'', Count 9, Count 2)] empty_chart =
     \<lparr>time = [''10:00:02'', ''10:00:03'', ''10:00:04'', ''10:00:05'', ''10:00:06'',
        ''10:00:07'', ''10:00:08'', ''10:00:09''],
      throughput = [Count 2, Count 3, Count 4, Count 5, Count 6, Count 7, Count 8, Count 9],
      loss = [Count 0, Count 0, Count 0, Count 0, Count 0, Count 1, Count 1, Count 2]\<rparr>"
  using bounded_fifo_buffer [of "[]" "(''10:00:01'', Count 1, Count 0)"
      "(''10:00:02'', Count 2, Count 0)" "(''10:00:03'', Count 3, Count 0)"
      "(''10:00:04'', Count 4, Count 0)" "(''10:00:05'', Count 5, Count 0)"
      "(''10:00:06'', Count 6, Count 0)" "(''10:00:07'', Count 7, Count 1)"
      "(''10:00:08'', Count 8, Count 1)" "(''10:00:09'', Count 9, Count 2)"]
  by (simp add: chart_of_def)

text \<open>
  C8, as the claim states it, fails: after the first tick (one packet sent, window 2),
  the pause button followed by the start button leaves no packet sent, a window of 1 and
  an empty chart.
\<close>

theorem pause_then_start_resets:
  "simulateNetworkTraffic ''10:00:01'' (startSimulation initial_state) =
     \<lparr>packetRate = 10, networkCapacity = 15, sentPackets = 1, deliveredPackets = Count 1,
      droppedPackets = Count 0, currentProtocol = TCP, isSimulationRunning = True,
      simulationInterval = True, tcpWindowSize = 2,
      chartData = \<lparr>time = [''10:00:01''], throughput = [Count 1], loss = [Count 0]\<rparr>\<rparr>
   \<and> startSimulation (pauseSimulation
       \<lparr>packetRate = 10, networkCapacity = 15, sentPackets = 1, deliveredPackets = Count 1,
        droppedPackets = Count 0, currentProtocol = TCP, isSimulationRunning = True,
        simulationInterval = True, tcpWindowSize = 2,
        chartData = \<lparr>time = [''10:00:01''], throughput = [Count 1], loss = [Count 0]\<rparr>\<rparr>) =
     \<lparr>packetRate = 10, networkCapacity = 15, sentPackets = 0, deliveredPackets = Count 0,
      droppedPackets = Count 0, currentProtocol = TCP, isSimulationRunning = True,
      simulationInterval = True, tcpWindowSize = 1,
      chartData = \<lparr>time = [], throughput = [], loss = []\<rparr>\<rparr>"
proof (rule conjI)
  show "simulateNetworkTraffic ''10:00:01'' (startSimulation initial_state) =
     \<lparr>packetRate = 10, networkCapacity = 15, sentPackets = 1, deliveredPackets = Count 1,
      droppedPackets = Count 0, currentProtocol = TCP, isSimulationRunning = True,
      simulationInterval = True, tcpWindowSize = 2,
      chartData = \<lparr>time = [''10:00:01''], throughput = [Count 1], loss = [Count 0]\<rparr>\<rparr>"
    by (rule tick_eval_1)
qed (simp add: startSimulation_def pauseSimulation_def resetNetworkStats_def empty_chart_def)

text \<open>
  C8, amended. The pause button clears the running flag and the interval and changes
  nothing else. The start button does nothing while the simulation runs; otherwise it
  resets counters, window and chart and schedules the interval, so pause followed by
  start leaves the reset state. The reset button resets them as well and leaves the
  simulation stopped.
\<close>

theorem lifecycle_frame:
  "sentPackets (pauseSimulation s) = sentPackets s
   \<and> deliveredPackets (pauseSimulation s) = deliveredPackets s
   \<and> droppedPackets (pauseSimulation s) = droppedPackets s
   \<and> tcpWindowSize (pauseSimulation s) = tcpWindowSize s
   \<and> chartData (pauseSimulation s) = chartData s
   \<and> packetRate (pauseSimulation s) = packetRate s
   \<and> networkCapacity (pauseSimulation s) = networkCapacity s
   \<and> currentProtocol (pauseSimulation s) = currentProtocol s
   \<and> \<not> simulationInterval (pauseSimulation s)
   \<and> \<not> isSimulationRunning (pauseSimulation s)
   \<and> (isSimulationRunning s \<longrightarrow> startSimulation s = s)
   \<and> (\<not> isSimulationRunning s \<longrightarrow>
        startSimulation s =
          (resetNetworkStats s)\<lparr>isSimulationRunning := True, simulationInterval := True\<rparr>)
   \<and> startSimulation (pauseSimulation s) =
        (resetNetworkStats s)\<lparr>isSimulationRunning := True, simulationInterval := True\<rparr>
   \<and> resetSimulation s =
        (resetNetworkStats s)\<lparr>isSimulationRunning := False, simulationInterval := False\<rparr>
   \<and> sentPackets (resetNetworkStats s) = 0
   \<and> deliveredPackets (resetNetworkStats s) = Count 0
   \<and> droppedPackets (resetNetworkStats s) = Count 0
   \<and> tcpWindowSize (resetNetworkStats s) = 1
   \<and> chartData (resetNetworkStats s) = empty_chart"
  by (simp add: startSimulation_def pauseSimulation_def resetNetworkStats_def
      resetSimulation_def resetCharts_def)

theorem lifecycle_frame_witness:
  "isSimulationRunning (startSimulation initial_state)
   \<and> startSimulation (startSimulation initial_state) = startSimulation initial_state
   \<and> \<not> isSimulationRunning initial_state
   \<and> sentPackets (startSimulation initial_state) = 0
   \<and> tcpWindowSize (startSimulation initial_state) = 1"
  using lifecycle_frame [of "startSimulation initial_state"] lifecycle_frame [of initial_state]
  by (simp add: start_initial_lit) (simp add: initial_state_def)







end
